theory Spec2Isabelle
  imports Complex_Main "HOL-Library.Monad_Syntax" "HOL-Library.Multiset"
begin

section \<open>JavaScript values and string helpers\<close>

text \<open>
  The converter (\<^verbatim>\<open>src/index.js\<close>, the version with the paired and the timeline mode) works on
  strings and numbers only. A number read by \<^verbatim>\<open>parseInt\<close> is an integer or \<^verbatim>\<open>NaN\<close>; integers are
  kept exact here (a JavaScript double is exact below \<open>2^53\<close>).
\<close>

datatype number = Num int | NaN

definition isDigit :: "char \<Rightarrow> bool" where
  "isDigit c = (c \<in> set ''0123456789'')"

definition digitVal :: "char \<Rightarrow> int" where
  "digitVal c = int (of_char c) - 48"

definition digitsToInt :: "string \<Rightarrow> int" where
  "digitsToInt ds = foldl (\<lambda>n c. 10 * n + digitVal c) 0 ds"

text \<open>
  \<^verbatim>\<open>parseInt(s)\<close> on the strings this program gives it: the longest run of decimal digits at
  the front is read, and a string that does not start with a digit gives \<^verbatim>\<open>NaN\<close>. (Every
  argument is a capture of \<^verbatim>\<open>\d+\<close>, possibly followed by \<^verbatim>\<open>t\<close>, so no sign, blank or radix
  prefix occurs.)
\<close>

definition parseInt :: "string \<Rightarrow> number" where
  "parseInt s = (case takeWhile isDigit s of [] \<Rightarrow> NaN | d # ds \<Rightarrow> Num (digitsToInt (d # ds)))"

text \<open>\<^verbatim>\<open>s.replace("t", "")\<close>: the first \<^verbatim>\<open>t\<close> is removed.\<close>

fun replace_t :: "string \<Rightarrow> string" where
  "replace_t [] = []"
| "replace_t (c # cs) = (if c = CHR ''t'' then cs else c # replace_t cs)"

text \<open>\<^verbatim>\<open>s.replace(/<br\/>/g, "\n")\<close>: every \<^verbatim>\<open><br/>\<close> becomes a line feed, left to right.\<close>

function replace_br :: "string \<Rightarrow> string" where
  "replace_br s =
     (if s = [] then []
      else if take 5 s = ''<br/>'' then CHR 0x0A # replace_br (drop 5 s)
      else hd s # replace_br (tl s))"
  by pat_completeness auto
termination
  by (relation "measure length") auto

declare replace_br.simps [simp del]

section \<open>The regular expressions of the extraction\<close>

text \<open>A literal piece of a pattern: the input must start with it; the rest is returned.\<close>

fun lit :: "string \<Rightarrow> string \<Rightarrow> string option" where
  "lit [] s = Some s"
| "lit (p # ps) [] = None"
| "lit (p # ps) (c # cs) = (if p = c then lit ps cs else None)"

text \<open>\<^verbatim>\<open>\d+\<close> followed by a character that is no digit: the whole digit run is taken.\<close>

definition digits1 :: "string \<Rightarrow> (string \<times> string) option" where
  "digits1 s =
     (let ds = takeWhile isDigit s
      in if ds = [] then None else Some (ds, dropWhile isDigit s))"

text \<open>\<^verbatim>\<open>([\s\S]*?)\<close> followed by a literal: everything up to the first occurrence of the literal.\<close>

fun lazyUntil :: "string \<Rightarrow> string \<Rightarrow> (string \<times> string) option" where
  "lazyUntil pat [] = (if pat = [] then Some ([], []) else None)"
| "lazyUntil pat (c # cs) =
     (case lit pat (c # cs) of
        Some rest \<Rightarrow> Some ([], rest)
      | None \<Rightarrow> (case lazyUntil pat cs of
                   Some (body, rest) \<Rightarrow> Some (c # body, rest)
                 | None \<Rightarrow> None))"

text \<open>
  A cue as the extraction pushes it, \<^verbatim>\<open>{ begin, end, text }\<close>. The fields carry the prefix
  \<open>sub_\<close> because \<^verbatim>\<open>begin\<close> and \<^verbatim>\<open>end\<close> are keywords here; \<^verbatim>\<open>begin\<close> and \<^verbatim>\<open>end\<close> are the
  captured strings, digits followed by \<^verbatim>\<open>t\<close>.
\<close>

record subtitle =
  sub_begin :: string
  sub_end :: string
  sub_text :: string

text \<open>
  The Korean pattern at one position of the input,
  \<^verbatim>\<open><p xml:id="subtitle\d+" begin="(\d+t)" end="(\d+t)" region="region\d+" style="style\d+">([\s\S]*?)<\/p>\<close>:
  the three captures and the input after the match.
\<close>

definition match_kr :: "string \<Rightarrow> ((string \<times> string \<times> string) \<times> string) option" where
  "match_kr s = do {
     s1 \<leftarrow> lit ''<p xml:id=\"subtitle'' s;
     (n, s2) \<leftarrow> digits1 s1;
     s3 \<leftarrow> lit ''\" begin=\"'' s2;
     (b, s4) \<leftarrow> digits1 s3;
     s5 \<leftarrow> lit ''t\" end=\"'' s4;
     (e, s6) \<leftarrow> digits1 s5;
     s7 \<leftarrow> lit ''t\" region=\"region'' s6;
     (r, s8) \<leftarrow> digits1 s7;
     s9 \<leftarrow> lit ''\" style=\"style'' s8;
     (y, s10) \<leftarrow> digits1 s9;
     s11 \<leftarrow> lit ''\">'' s10;
     (body, rest) \<leftarrow> lazyUntil ''</p>'' s11;
     Some ((b @ ''t'', e @ ''t'', body), rest)
   }"

text \<open>
  The Chinese pattern,
  \<^verbatim>\<open><p xml:id="subtitle\d+" begin="(\d+t)" end="(\d+t)" region="region\d+">([\s\S]*?)<\/p>\<close>.
\<close>

definition match_ch :: "string \<Rightarrow> ((string \<times> string \<times> string) \<times> string) option" where
  "match_ch s = do {
     s1 \<leftarrow> lit ''<p xml:id=\"subtitle'' s;
     (n, s2) \<leftarrow> digits1 s1;
     s3 \<leftarrow> lit ''\" begin=\"'' s2;
     (b, s4) \<leftarrow> digits1 s3;
     s5 \<leftarrow> lit ''t\" end=\"'' s4;
     (e, s6) \<leftarrow> digits1 s5;
     s7 \<leftarrow> lit ''t\" region=\"region'' s6;
     (r, s8) \<leftarrow> digits1 s7;
     s9 \<leftarrow> lit ''\">'' s8;
     (body, rest) \<leftarrow> lazyUntil ''</p>'' s9;
     Some ((b @ ''t'', e @ ''t'', body), rest)
   }"

text \<open>The span pattern \<^verbatim>\<open><span[^>]*>([\s\S]*?)<\/span>\<close>: its capture and the input after it.\<close>

definition match_span :: "string \<Rightarrow> (string \<times> string) option" where
  "match_span s = do {
     s1 \<leftarrow> lit ''<span'' s;
     s2 \<leftarrow> lit ''>'' (dropWhile (\<lambda>c. c \<noteq> CHR ''>'') s1);
     lazyUntil ''</span>'' s2
   }"

text \<open>
  \<^verbatim>\<open>while ((match = regex.exec(input)) !== null)\<close> with a global pattern: the leftmost match
  at or after \<^verbatim>\<open>lastIndex\<close> is taken and the search goes on behind it. A match of one of
  the patterns above is never empty, so \<^verbatim>\<open>lastIndex\<close> always advances; the test on the
  lengths says so.
\<close>

function execAll :: "(string \<Rightarrow> ('a \<times> string) option) \<Rightarrow> string \<Rightarrow> 'a list" where
  "execAll m s =
     (case m s of
        Some (x, rest) \<Rightarrow> if length rest < length s then x # execAll m rest else [x]
      | None \<Rightarrow> (case s of [] \<Rightarrow> [] | c # cs \<Rightarrow> execAll m cs))"
  by pat_completeness auto
termination
  by (relation "measure (\<lambda>(m, s). length s)") auto

declare execAll.simps [simp del]

text \<open>The text of a Chinese cue: the span captures, joined by line feeds.\<close>

definition joinSpans :: "string list \<Rightarrow> string" where
  "joinSpans spans =
     foldl (\<lambda>text sp. (if text \<noteq> [] then text @ [CHR 0x0A] else text) @ sp) [] spans"

definition extractSubtitlesWithRegex :: "string \<Rightarrow> string \<Rightarrow> subtitle list" where
  "extractSubtitlesWithRegex xmlContent language =
     (if language = ''kr'' then
        map (\<lambda>(b, e, body). \<lparr>sub_begin = b, sub_end = e, sub_text = replace_br body\<rparr>)
          (execAll match_kr xmlContent)
      else if language = ''ch'' then
        map (\<lambda>(b, e, content).
               \<lparr>sub_begin = b, sub_end = e,
                sub_text = replace_br (joinSpans (execAll match_span content))\<rparr>)
          (execAll match_ch xmlContent)
      else [])"

text \<open>
  \<^verbatim>\<open>xmlData.match(/ttp:tickRate="(\d+)"/)\<close>: the first match anywhere in the document, and
  \<^verbatim>\<open>10000000\<close> when there is none.
\<close>

definition match_tickRate :: "string \<Rightarrow> string option" where
  "match_tickRate s = do {
     s1 \<leftarrow> lit ''ttp:tickRate=\"'' s;
     (ds, s2) \<leftarrow> digits1 s1;
     s3 \<leftarrow> lit ''\"'' s2;
     Some ds
   }"

fun firstMatch :: "(string \<Rightarrow> 'a option) \<Rightarrow> string \<Rightarrow> 'a option" where
  "firstMatch m [] = m []"
| "firstMatch m (c # cs) = (case m (c # cs) of Some x \<Rightarrow> Some x | None \<Rightarrow> firstMatch m cs)"

definition tickRateOf :: "string \<Rightarrow> number" where
  "tickRateOf xmlData =
     (case firstMatch match_tickRate xmlData of
        Some ds \<Rightarrow> parseInt ds
      | None \<Rightarrow> Num 10000000)"

section \<open>Time codes\<close>

text \<open>
  The quotient \<^verbatim>\<open>timeValue / tickRate\<close> of two numbers. It is kept as an exact rational (the
  source computes it as a double, so the last digit of the milliseconds can differ where
  the quotient has no exact binary representation). Division by zero raises nothing in
  JavaScript: it gives an infinity, and \<^verbatim>\<open>0 / 0\<close> gives \<^verbatim>\<open>NaN\<close>.
\<close>

datatype quotient = Finite rat | Infinity | NegInfinity | NotANumber

fun js_div :: "number \<Rightarrow> number \<Rightarrow> quotient" where
  "js_div (Num a) (Num b) =
     (if b \<noteq> 0 then Finite (of_int a / of_int b)
      else if a = 0 then NotANumber
      else if 0 < a then Infinity else NegInfinity)"
| "js_div NaN y = NotANumber"
| "js_div x NaN = NotANumber"

text \<open>\<^verbatim>\<open>a % b\<close> for a positive constant \<open>b\<close>: the remainder has the sign of \<open>a\<close>.\<close>

definition js_rem :: "rat \<Rightarrow> rat \<Rightarrow> rat" where
  "js_rem a b = a - b * of_int (if 0 \<le> a / b then \<lfloor>a / b\<rfloor> else \<lceil>a / b\<rceil>)"

fun showNat :: "nat \<Rightarrow> string" where
  "showNat n =
     (if n < 10 then [''0123456789'' ! n]
      else showNat (n div 10) @ [''0123456789'' ! (n mod 10)])"

declare showNat.simps [simp del]

definition showInt :: "int \<Rightarrow> string" where
  "showInt i = (if i < 0 then CHR ''-'' # showNat (nat (- i)) else showNat (nat i))"

definition padStart :: "nat \<Rightarrow> char \<Rightarrow> string \<Rightarrow> string" where
  "padStart n c s = replicate (n - length s) c @ s"

text \<open>
  \<^verbatim>\<open>convertTimeToSRT(time, tickRate)\<close>. For a quotient that is not finite the source computes
  \<^verbatim>\<open>Math.floor(Infinity / 3600) = Infinity\<close>, \<^verbatim>\<open>Infinity % 3600 = NaN\<close>,
  \<^verbatim>\<open>Infinity - Infinity = NaN\<close>, and every operation on \<^verbatim>\<open>NaN\<close> is \<^verbatim>\<open>NaN\<close>; \<^verbatim>\<open>toString\<close> spells
  them \<^verbatim>\<open>Infinity\<close> and \<^verbatim>\<open>NaN\<close>, which \<^verbatim>\<open>padStart\<close> leaves as they are. No branch raises.
  (A negative tick count does not arise, a capture of \<^verbatim>\<open>\d+\<close> has no sign; the case of the
  negative infinity is there for completeness.)
\<close>

definition convertTimeToSRT :: "string \<Rightarrow> number \<Rightarrow> string" where
  "convertTimeToSRT time tickRate =
     (let timeValue = parseInt (replace_t time)
      in case js_div timeValue tickRate of
           Finite totalSeconds \<Rightarrow>
             (let hours = \<lfloor>totalSeconds / 3600\<rfloor>;
                  minutes = \<lfloor>js_rem totalSeconds 3600 / 60\<rfloor>;
                  seconds = \<lfloor>js_rem totalSeconds 60\<rfloor>;
                  milliseconds = \<lfloor>(totalSeconds - of_int \<lfloor>totalSeconds\<rfloor>) * 1000\<rfloor>
              in padStart 2 CHR ''0'' (showInt hours) @ '':'' @
                 padStart 2 CHR ''0'' (showInt minutes) @ '':'' @
                 padStart 2 CHR ''0'' (showInt seconds) @ '','' @
                 padStart 3 CHR ''0'' (showInt milliseconds))
         | Infinity \<Rightarrow> ''Infinity:NaN:NaN,NaN''
         | NegInfinity \<Rightarrow> ''-Infinity:NaN:NaN,NaN''
         | NotANumber \<Rightarrow> ''NaN:NaN:NaN,NaN'')"

section \<open>Output entries\<close>

text \<open>
  What one pass of an output loop appends to \<^verbatim>\<open>srtContent\<close>: the running index, the two
  time codes, the text of the cue and, in paired mode, the text of the matched cue.
\<close>

record entry =
  e_index :: nat
  e_start :: string
  e_end :: string
  e_text :: string
  e_second :: "string option"

definition renderSRT :: "entry \<Rightarrow> string" where
  "renderSRT e =
     showNat (e_index e) @ [CHR 0x0A] @
     e_start e @ '' --> '' @ e_end e @ [CHR 0x0A] @
     e_text e @ [CHR 0x0A] @
     (case e_second e of Some t \<Rightarrow> t @ [CHR 0x0A] | None \<Rightarrow> []) @
     [CHR 0x0A]"

section \<open>Sorting with a comparator\<close>

definition num_sub :: "number \<Rightarrow> number \<Rightarrow> number" where
  "num_sub x y = (case (x, y) of (Num a, Num b) \<Rightarrow> Num (a - b) | _ \<Rightarrow> NaN)"

definition num_abs :: "number \<Rightarrow> number" where
  "num_abs x = (case x of Num a \<Rightarrow> Num \<bar>a\<bar> | NaN \<Rightarrow> NaN)"

text \<open>\<^verbatim>\<open>x < y\<close> on numbers: false as soon as one side is \<^verbatim>\<open>NaN\<close>.\<close>

definition num_lt :: "number \<Rightarrow> number \<Rightarrow> bool" where
  "num_lt x y = (case (x, y) of (Num a, Num b) \<Rightarrow> a < b | _ \<Rightarrow> False)"

text \<open>
  \<^verbatim>\<open>array.sort(cmp)\<close> is stable (ECMAScript 2019; the README asks for Node 12 or later):
  an element moves behind another one only when the comparator says it is greater, and
  elements that compare equal keep their order. For a comparator that subtracts numeric
  keys this fixes the result, which the insertion sort below computes; a \<^verbatim>\<open>NaN\<close> from the
  comparator counts as equal.
\<close>

fun insort_js :: "('a \<Rightarrow> 'a \<Rightarrow> number) \<Rightarrow> 'a \<Rightarrow> 'a list \<Rightarrow> 'a list" where
  "insort_js cmp x [] = [x]"
| "insort_js cmp x (y # ys) =
     (if num_lt (Num 0) (cmp x y) then y # insort_js cmp x ys else x # y # ys)"

definition sort_js :: "('a \<Rightarrow> 'a \<Rightarrow> number) \<Rightarrow> 'a list \<Rightarrow> 'a list" where
  "sort_js cmp xs = foldr (insort_js cmp) xs []"

text \<open>The comparator of the paired mode, on the \<^verbatim>\<open>begin\<close> attributes.\<close>

definition compareBegin :: "subtitle \<Rightarrow> subtitle \<Rightarrow> number" where
  "compareBegin a b =
     num_sub (parseInt (replace_t (sub_begin a))) (parseInt (replace_t (sub_begin b)))"

section \<open>Paired mode\<close>

text \<open>The three variables of the search for the best match.\<close>

record best =
  minTimeDiff :: number
  bestMatch :: "subtitle option"
  bestMatchIndex :: int

definition MAX_SAFE_INTEGER :: int where
  "MAX_SAFE_INTEGER = 9007199254740991"

text \<open>The body of the inner loop, for one \<open>k\<close> with \<open>startJ \<le> k < endJ \<le> subtitles2.length\<close>.\<close>

definition searchStep :: "subtitle list \<Rightarrow> number \<Rightarrow> nat \<Rightarrow> best \<Rightarrow> best" where
  "searchStep subtitles2 startTime1 k st =
     (let subtitle2 = subtitles2 ! k;
          startTime2 = parseInt (replace_t (sub_begin subtitle2));
          timeDiff = num_abs (num_sub startTime1 startTime2)
      in if num_lt timeDiff (minTimeDiff st)
         then \<lparr>minTimeDiff = timeDiff, bestMatch = Some subtitle2, bestMatchIndex = int k\<rparr>
         else st)"

definition startJ :: "nat \<Rightarrow> nat" where
  "startJ j = nat (max 0 (int j - 2))"

definition endJ :: "subtitle list \<Rightarrow> nat \<Rightarrow> nat" where
  "endJ subtitles2 j = min (length subtitles2) (startJ j + 10)"

definition findBest :: "subtitle list \<Rightarrow> number \<Rightarrow> nat \<Rightarrow> best" where
  "findBest subtitles2 startTime1 j =
     fold (searchStep subtitles2 startTime1) [startJ j ..< endJ subtitles2 j]
       \<lparr>minTimeDiff = Num MAX_SAFE_INTEGER, bestMatch = None, bestMatchIndex = - 1\<rparr>"

text \<open>\<^verbatim>\<open>if (bestMatch && minTimeDiff < 10000000)\<close>\<close>

definition accepted :: "best \<Rightarrow> bool" where
  "accepted b = (bestMatch b \<noteq> None \<and> num_lt (minTimeDiff b) (Num 10000000))"

text \<open>
  One pass of the outer loop, as the values of its variables when the entry is written:
  the running index, the cue of the first file, the cursor \<open>j\<close> the pass started with and
  the outcome of the search.
\<close>

record iteration =
  it_index :: nat
  it_subtitle1 :: subtitle
  it_j :: nat
  it_best :: best

text \<open>The cursor after a pass: \<^verbatim>\<open>j = bestMatchIndex + 1\<close> when the match is accepted.\<close>

definition nextJ :: "nat \<Rightarrow> best \<Rightarrow> nat" where
  "nextJ j b = (if accepted b then nat (bestMatchIndex b + 1) else j)"

fun pairedLoop :: "subtitle list \<Rightarrow> subtitle list \<Rightarrow> nat \<Rightarrow> nat \<Rightarrow> iteration list" where
  "pairedLoop [] subtitles2 index j = []"
| "pairedLoop (subtitle1 # rest) subtitles2 index j =
     (let startTime1 = parseInt (replace_t (sub_begin subtitle1));
          b = findBest subtitles2 startTime1 j
      in \<lparr>it_index = index, it_subtitle1 = subtitle1, it_j = j, it_best = b\<rparr>
         # pairedLoop rest subtitles2 (index + 1) (nextJ j b))"

definition pairedEntry :: "number \<Rightarrow> iteration \<Rightarrow> entry" where
  "pairedEntry tickRate1 it =
     \<lparr>e_index = it_index it,
      e_start = convertTimeToSRT (sub_begin (it_subtitle1 it)) tickRate1,
      e_end = convertTimeToSRT (sub_end (it_subtitle1 it)) tickRate1,
      e_text = sub_text (it_subtitle1 it),
      e_second = (if accepted (it_best it)
                  then map_option sub_text (bestMatch (it_best it)) else None)\<rparr>"

text \<open>The strategy on two cue sequences that are already sorted, started as the source starts it.\<close>

definition pairedEntries :: "subtitle list \<Rightarrow> subtitle list \<Rightarrow> number \<Rightarrow> entry list" where
  "pairedEntries subtitles1 subtitles2 tickRate1 =
     map (pairedEntry tickRate1) (pairedLoop subtitles1 subtitles2 1 0)"

text \<open>\<^verbatim>\<open>createCombinedSRTPaired\<close>, from the contents of the two files to the content written.\<close>

definition createCombinedSRTPaired :: "string \<Rightarrow> string \<Rightarrow> string \<Rightarrow> string \<Rightarrow> string" where
  "createCombinedSRTPaired xmlData1 xmlData2 language1 language2 =
     (let tickRate1 = tickRateOf xmlData1;
          subtitles1 = sort_js compareBegin (extractSubtitlesWithRegex xmlData1 language1);
          subtitles2 = sort_js compareBegin (extractSubtitlesWithRegex xmlData2 language2)
      in concat (map renderSRT (pairedEntries subtitles1 subtitles2 tickRate1)))"

section \<open>Timeline mode\<close>

record mergedSubtitle = subtitle +
  language :: string
  tickRate :: number
  startTime :: number

definition tagSubtitle :: "string \<Rightarrow> number \<Rightarrow> subtitle \<Rightarrow> mergedSubtitle" where
  "tagSubtitle lang rate sub =
     \<lparr>sub_begin = sub_begin sub, sub_end = sub_end sub, sub_text = sub_text sub,
      language = lang, tickRate = rate,
      startTime = parseInt (replace_t (sub_begin sub))\<rparr>"

definition compareStartTime :: "mergedSubtitle \<Rightarrow> mergedSubtitle \<Rightarrow> number" where
  "compareStartTime a b = num_sub (startTime a) (startTime b)"

definition mergedSubtitles ::
  "subtitle list \<Rightarrow> subtitle list \<Rightarrow> string \<Rightarrow> string \<Rightarrow> number \<Rightarrow> number \<Rightarrow> mergedSubtitle list" where
  "mergedSubtitles subtitles1 subtitles2 language1 language2 tickRate1 tickRate2 =
     sort_js compareStartTime
       (map (tagSubtitle language1 tickRate1) subtitles1 @
        map (tagSubtitle language2 tickRate2) subtitles2)"

definition timelineEntry :: "nat \<Rightarrow> mergedSubtitle \<Rightarrow> entry" where
  "timelineEntry index subtitle =
     \<lparr>e_index = index,
      e_start = convertTimeToSRT (sub_begin subtitle) (tickRate subtitle),
      e_end = convertTimeToSRT (sub_end subtitle) (tickRate subtitle),
      e_text = sub_text subtitle,
      e_second = None\<rparr>"

definition timelineEntries ::
  "subtitle list \<Rightarrow> subtitle list \<Rightarrow> string \<Rightarrow> string \<Rightarrow> number \<Rightarrow> number \<Rightarrow> entry list" where
  "timelineEntries subtitles1 subtitles2 language1 language2 tickRate1 tickRate2 =
     (let merged = mergedSubtitles subtitles1 subtitles2 language1 language2 tickRate1 tickRate2
      in map (\<lambda>(i, subtitle). timelineEntry (i + 1) subtitle) (enumerate 0 merged))"

definition createCombinedSRTTimeline :: "string \<Rightarrow> string \<Rightarrow> string \<Rightarrow> string \<Rightarrow> string" where
  "createCombinedSRTTimeline xmlData1 xmlData2 language1 language2 =
     concat (map renderSRT
       (timelineEntries
          (extractSubtitlesWithRegex xmlData1 language1)
          (extractSubtitlesWithRegex xmlData2 language2)
          language1 language2 (tickRateOf xmlData1) (tickRateOf xmlData2)))"

section \<open>Single-file conversion\<close>



section \<open>Notions used to state the properties\<close>

text \<open>The start of a cue in ticks, as every comparison of the source reads it.\<close>

definition startTicks :: "subtitle \<Rightarrow> number" where
  "startTicks sub = parseInt (replace_t (sub_begin sub))"

text \<open>\<^verbatim>\<open>Math.abs(startTime1 - startTime2)\<close>, the distance the search compares: in ticks.\<close>

definition timeDiff :: "number \<Rightarrow> subtitle \<Rightarrow> number" where
  "timeDiff startTime1 subtitle2 = num_abs (num_sub startTime1 (startTicks subtitle2))"

text \<open>The integer a number stands for (and 0 for \<^verbatim>\<open>NaN\<close>, which no extracted cue has).\<close>

definition ticks :: "number \<Rightarrow> int" where
  "ticks x = (case x of Num n \<Rightarrow> n | NaN \<Rightarrow> 0)"

text \<open>The start of a cue in seconds: its ticks over the tick rate of its own file.\<close>

definition startSeconds :: "subtitle \<Rightarrow> number \<Rightarrow> quotient" where
  "startSeconds sub rate = js_div (startTicks sub) rate"


text \<open>The search variables before the inner loop, and after it has settled on index \<open>k\<close>.\<close>

definition initBest :: best where
  "initBest = \<lparr>minTimeDiff = Num MAX_SAFE_INTEGER, bestMatch = None, bestMatchIndex = - 1\<rparr>"

definition bestAt :: "subtitle list \<Rightarrow> number \<Rightarrow> nat \<Rightarrow> best" where
  "bestAt B s k =
     \<lparr>minTimeDiff = timeDiff s (B ! k), bestMatch = Some (B ! k), bestMatchIndex = int k\<rparr>"

text \<open>
  What the inner loop has established after the indices \<open>a \<le> k < b\<close>: either nothing was
  below the initial bound, or the variables hold the first index of least distance.
\<close>

definition searched :: "subtitle list \<Rightarrow> number \<Rightarrow> nat \<Rightarrow> nat \<Rightarrow> best \<Rightarrow> bool" where
  "searched B s a b st \<longleftrightarrow>
     (st = initBest \<and>
      (\<forall>k. a \<le> k \<and> k < b \<longrightarrow> \<not> num_lt (timeDiff s (B ! k)) (Num MAX_SAFE_INTEGER)))
     \<or> (\<exists>k. a \<le> k \<and> k < b \<and> st = bestAt B s k \<and>
           num_lt (timeDiff s (B ! k)) (Num MAX_SAFE_INTEGER) \<and>
           (\<forall>k'. a \<le> k' \<and> k' < b \<longrightarrow> \<not> num_lt (timeDiff s (B ! k')) (timeDiff s (B ! k))) \<and>
           (\<forall>k'. a \<le> k' \<and> k' < k \<longrightarrow> timeDiff s (B ! k') \<noteq> timeDiff s (B ! k)))"

text \<open>The index of the second file that a pass of the outer loop matched, if it matched one.\<close>

definition matchedIndex :: "iteration \<Rightarrow> nat option" where
  "matchedIndex it =
     (if accepted (it_best it) then Some (nat (bestMatchIndex (it_best it))) else None)"

text \<open>A cue, written down by its three fields.\<close>

definition cue :: "string \<Rightarrow> string \<Rightarrow> string \<Rightarrow> subtitle" where
  "cue b e t = \<lparr>sub_begin = b, sub_end = e, sub_text = t\<rparr>"

section \<open>Concrete cue sequences\<close>



text \<open>Two cues of the first file one tick apart, and a single cue of the second file.\<close>

definition rematch_A :: "subtitle list" where
  "rematch_A = [cue ''0t'' ''5t'' ''a1'', cue ''1t'' ''6t'' ''a2'']"

definition rematch_B :: "subtitle list" where
  "rematch_B = [cue ''0t'' ''5t'' ''b1'']"

section \<open>Concrete documents\<close>

text \<open>
  The fourth scenario of the specification as two files: a Korean one with a cue at
  10000000 ticks at 10000000 ticks per second, and a Chinese one with a cue at 2700000
  ticks at 2700000 ticks per second. Both cues start at 1.0 s.
\<close>

definition xml4_A :: string where
  "xml4_A = ''<tt ttp:tickRate=\"10000000\"><p xml:id=\"subtitle1\" begin=\"10000000t\" end=\"20000000t\" region=\"region1\" style=\"style1\">a1</p></tt>''"

definition xml4_B :: string where
  "xml4_B = ''<tt ttp:tickRate=\"2700000\"><p xml:id=\"subtitle1\" begin=\"2700000t\" end=\"5400000t\" region=\"region1\"><span>b1</span></p></tt>''"

text \<open>Two files at 1000000 ticks per second whose cues start 5 s apart.\<close>

definition xmlGap_A :: string where
  "xmlGap_A = ''<tt ttp:tickRate=\"1000000\"><p xml:id=\"subtitle1\" begin=\"0t\" end=\"1000000t\" region=\"region1\" style=\"style1\">a1</p></tt>''"

definition xmlGap_B :: string where
  "xmlGap_B = ''<tt ttp:tickRate=\"1000000\"><p xml:id=\"subtitle1\" begin=\"5000000t\" end=\"6000000t\" region=\"region1\"><span>b1</span></p></tt>''"

text \<open>A file at 1000000 ticks per second with cues at 1 s and at 9 s.\<close>

definition xmlNear_B :: string where
  "xmlNear_B = ''<tt ttp:tickRate=\"1000000\"><p xml:id=\"subtitle1\" begin=\"1000000t\" end=\"2000000t\" region=\"region1\"><span>b1</span></p><p xml:id=\"subtitle2\" begin=\"9000000t\" end=\"9500000t\" region=\"region1\"><span>b2</span></p></tt>''"


section \<open>Sorting keeps every element\<close>

lemma mset_insort_js: "mset (insort_js cmp x ys) = add_mset x (mset ys)"
  by (induction ys) auto

lemma mset_sort_js: "mset (sort_js cmp xs) = mset xs"
  by (induction xs) (auto simp: sort_js_def mset_insort_js)

lemma length_sort_js: "length (sort_js cmp xs) = length xs"
  using mset_sort_js [of cmp xs] by (metis size_mset)

lemma map_snd_enumerate_fun: "map (\<lambda>x. f (snd x)) (enumerate n xs) = map f xs"
  by (induction xs arbitrary: n) auto

lemma sub_text_tagSubtitle: "sub_text (tagSubtitle l r s) = sub_text s"
  by (simp add: tagSubtitle_def)

lemma timeline_texts:
  "map e_text (timelineEntries A B l1 l2 r1 r2) = map sub_text (mergedSubtitles A B l1 l2 r1 r2)"
  by (simp add: timelineEntries_def timelineEntry_def case_prod_unfold o_def
      map_snd_enumerate_fun)

section \<open>Timeline mode keeps every cue\<close>

text \<open>
  C4. The timeline output has one entry for every cue of the two files together, and the
  texts of the entries are the texts of the cues, each as often as it occurs among the cues:
  none is missing and none is duplicated. This holds for all cue sequences, the non-empty
  ones among them.
\<close>

theorem timeline_keeps_every_cue:
  "length (timelineEntries A B l1 l2 r1 r2) = length A + length B \<and>
   mset (map e_text (timelineEntries A B l1 l2 r1 r2)) =
     mset (map sub_text A) + mset (map sub_text B)"
proof
  show "length (timelineEntries A B l1 l2 r1 r2) = length A + length B"
    by (simp add: timelineEntries_def mergedSubtitles_def length_sort_js)
next
  have "mset (map sub_text (mergedSubtitles A B l1 l2 r1 r2)) =
        image_mset sub_text (mset (map (tagSubtitle l1 r1) A @ map (tagSubtitle l2 r2) B))"
    unfolding mergedSubtitles_def by (simp only: mset_map mset_sort_js)
  also have "\<dots> = mset (map sub_text A) + mset (map sub_text B)"
    by (simp add: multiset.map_comp o_def sub_text_tagSubtitle)
  finally show "mset (map e_text (timelineEntries A B l1 l2 r1 r2)) =
      mset (map sub_text A) + mset (map sub_text B)"
    by (simp only: timeline_texts)
qed

section \<open>Extraction with an unknown language\<close>



section \<open>The search for the best match\<close>

lemma searchStep_eq:
  "searchStep B s k st = (if num_lt (timeDiff s (B ! k)) (minTimeDiff st) then bestAt B s k else st)"
  by (simp add: searchStep_def timeDiff_def startTicks_def bestAt_def Let_def)

lemma num_lt_trans: "num_lt x y \<Longrightarrow> num_lt y z \<Longrightarrow> num_lt x z"
  by (auto simp: num_lt_def split: number.splits)

lemma num_lt_irrefl: "\<not> num_lt x x"
  by (auto simp: num_lt_def split: number.splits)

lemma num_lt_not_lt: "num_lt x y \<Longrightarrow> \<not> num_lt z y \<Longrightarrow> \<not> num_lt z x"
  by (auto simp: num_lt_def split: number.splits)

lemma num_lt_neq: "num_lt x y \<Longrightarrow> \<not> num_lt z y \<Longrightarrow> z \<noteq> x"
  by (auto simp: num_lt_def split: number.splits)

lemma searched_none:
  assumes "st = initBest"
    and "\<And>k. a \<le> k \<Longrightarrow> k < b \<Longrightarrow> \<not> num_lt (timeDiff s (B ! k)) (Num MAX_SAFE_INTEGER)"
  shows "searched B s a b st"
  using assms unfolding searched_def by blast

lemma searched_some:
  assumes "a \<le> k" and "k < b" and "st = bestAt B s k"
    and "num_lt (timeDiff s (B ! k)) (Num MAX_SAFE_INTEGER)"
    and "\<And>k'. a \<le> k' \<Longrightarrow> k' < b \<Longrightarrow> \<not> num_lt (timeDiff s (B ! k')) (timeDiff s (B ! k))"
    and "\<And>k'. a \<le> k' \<Longrightarrow> k' < k \<Longrightarrow> timeDiff s (B ! k') \<noteq> timeDiff s (B ! k)"
  shows "searched B s a b st"
  using assms unfolding searched_def by blast

lemma searched_cases [consumes 1, case_names none some]:
  assumes "searched B s a b st"
  obtains
    "st = initBest"
      "\<And>k. a \<le> k \<Longrightarrow> k < b \<Longrightarrow> \<not> num_lt (timeDiff s (B ! k)) (Num MAX_SAFE_INTEGER)"
  | k where "a \<le> k" "k < b" "st = bestAt B s k"
      "num_lt (timeDiff s (B ! k)) (Num MAX_SAFE_INTEGER)"
      "\<And>k'. a \<le> k' \<Longrightarrow> k' < b \<Longrightarrow> \<not> num_lt (timeDiff s (B ! k')) (timeDiff s (B ! k))"
      "\<And>k'. a \<le> k' \<Longrightarrow> k' < k \<Longrightarrow> timeDiff s (B ! k') \<noteq> timeDiff s (B ! k)"
  using assms unfolding searched_def by blast

lemma not_lt_Suc_range:
  assumes "\<And>k'. a \<le> k' \<Longrightarrow> k' < b \<Longrightarrow> \<not> num_lt (d k') x" and "\<not> num_lt (d b) x"
    and "a \<le> k'" and "k' < Suc b"
  shows "\<not> num_lt (d k') x"
proof (cases "k' = b")
  case True
  with assms(2) show ?thesis by simp
next
  case False
  with assms(4) have "k' < b" by simp
  with assms(1,3) show ?thesis by blast
qed

lemma searched_new_best:
  assumes lt: "num_lt (timeDiff s (B ! b)) x" and xm: "x = Num MAX_SAFE_INTEGER \<or> num_lt x (Num MAX_SAFE_INTEGER)"
    and old: "\<And>k'. a \<le> k' \<Longrightarrow> k' < b \<Longrightarrow> \<not> num_lt (timeDiff s (B ! k')) x"
    and ab: "a \<le> b"
  shows "searched B s a (Suc b) (bestAt B s b)"
proof (rule searched_some [of a b])
  show "a \<le> b" by (rule ab)
  show "b < Suc b" by simp
  show "bestAt B s b = bestAt B s b" by simp
  show "num_lt (timeDiff s (B ! b)) (Num MAX_SAFE_INTEGER)"
    using lt xm num_lt_trans by blast
next
  fix k' assume k': "a \<le> k'" "k' < Suc b"
  have "\<not> num_lt (timeDiff s (B ! k')) x" if "k' < b"
    using old k'(1) that by blast
  then have "\<not> num_lt (timeDiff s (B ! k')) (timeDiff s (B ! b))" if "k' < b"
    using lt num_lt_not_lt that by blast
  then show "\<not> num_lt (timeDiff s (B ! k')) (timeDiff s (B ! b))"
    using k'(2) num_lt_irrefl by (cases "k' = b") simp_all
next
  fix k' assume k': "a \<le> k'" "k' < b"
  then have "\<not> num_lt (timeDiff s (B ! k')) x"
    using old by blast
  with lt show "timeDiff s (B ! k') \<noteq> timeDiff s (B ! b)"
    by (rule num_lt_neq)
qed

lemma searched_step:
  assumes "searched B s a b st" and ab: "a \<le> b"
  shows "searched B s a (Suc b) (searchStep B s b st)"
  using assms(1)
proof (cases rule: searched_cases)
  case none
  from none(1) have m: "minTimeDiff st = Num MAX_SAFE_INTEGER"
    by (simp add: initBest_def)
  show ?thesis
  proof (cases "num_lt (timeDiff s (B ! b)) (Num MAX_SAFE_INTEGER)")
    case True
    then have "searched B s a (Suc b) (bestAt B s b)"
      using none(2) ab by (intro searched_new_best [of _ _ _ "Num MAX_SAFE_INTEGER"]) simp_all
    with m True show ?thesis
      by (simp add: searchStep_eq)
  next
    case False
    have "searched B s a (Suc b) st"
    proof (rule searched_none)
      show "st = initBest" by (rule none(1))
    next
      fix k assume "a \<le> k" "k < Suc b"
      with none(2) False show "\<not> num_lt (timeDiff s (B ! k)) (Num MAX_SAFE_INTEGER)"
        by (rule not_lt_Suc_range [where d = "\<lambda>k. timeDiff s (B ! k)"])
    qed
    with m False show ?thesis
      by (simp add: searchStep_eq)
  qed
next
  case (some k)
  from some(3) have m: "minTimeDiff st = timeDiff s (B ! k)"
    by (simp add: bestAt_def)
  show ?thesis
  proof (cases "num_lt (timeDiff s (B ! b)) (timeDiff s (B ! k))")
    case True
    then have "searched B s a (Suc b) (bestAt B s b)"
      using some(4,5) ab by (intro searched_new_best [of _ _ _ "timeDiff s (B ! k)"]) simp_all
    with m True show ?thesis
      by (simp add: searchStep_eq)
  next
    case False
    have "searched B s a (Suc b) st"
    proof (rule searched_some [of a k])
      show "a \<le> k" by (rule some(1))
      show "k < Suc b" using some(2) by simp
      show "st = bestAt B s k" by (rule some(3))
      show "num_lt (timeDiff s (B ! k)) (Num MAX_SAFE_INTEGER)" by (rule some(4))
    next
      fix k' assume "a \<le> k'" "k' < Suc b"
      with some(5) False show "\<not> num_lt (timeDiff s (B ! k')) (timeDiff s (B ! k))"
        by (rule not_lt_Suc_range [where d = "\<lambda>k. timeDiff s (B ! k)"])
    next
      fix k' assume "a \<le> k'" "k' < k"
      then show "timeDiff s (B ! k') \<noteq> timeDiff s (B ! k)" by (rule some(6))
    qed
    with m False show ?thesis
      by (simp add: searchStep_eq)
  qed
qed

lemma searched_fold:
  "a \<le> b \<Longrightarrow> searched B s a b (fold (searchStep B s) [a ..< b] initBest)"
proof (induction b)
  case 0
  then show ?case by (simp add: searched_def)
next
  case (Suc b)
  show ?case
  proof (cases "a = Suc b")
    case True
    then show ?thesis by (auto simp: searched_def)
  next
    case False
    with Suc.prems have ab: "a \<le> b" by simp
    then have "fold (searchStep B s) [a ..< Suc b] initBest
        = searchStep B s b (fold (searchStep B s) [a ..< b] initBest)"
      by simp
    with searched_step [OF Suc.IH [OF ab] ab] show ?thesis by simp
  qed
qed

lemma findBest_searched:
  "searched B s (startJ j) (endJ B j) (findBest B s j)"
proof (cases "startJ j \<le> endJ B j")
  case True
  then show ?thesis
    using searched_fold [of "startJ j" "endJ B j" B s]
    by (simp add: findBest_def initBest_def)
next
  case False
  then show ?thesis
    by (auto simp: findBest_def initBest_def searched_def)
qed

section \<open>The outer loop of the paired mode\<close>

lemma accepted_initBest: "\<not> accepted initBest"
  by (simp add: accepted_def initBest_def)

lemma findBest_accepted:
  assumes "accepted (findBest B s j)"
  shows "\<exists>k. startJ j \<le> k \<and> k < endJ B j \<and> findBest B s j = bestAt B s k \<and>
             num_lt (timeDiff s (B ! k)) (Num 10000000)"
proof -
  from findBest_searched [of B s j] assms accepted_initBest
  obtain k where k: "startJ j \<le> k" "k < endJ B j" "findBest B s j = bestAt B s k"
    unfolding searched_def by metis
  with assms have "num_lt (timeDiff s (B ! k)) (Num 10000000)"
    by (simp add: accepted_def bestAt_def)
  with k show ?thesis by blast
qed


lemma endJ_le: "endJ B j \<le> length B"
  by (simp add: endJ_def)

lemma startJ_eq: "startJ j = j - 2"
  by (simp add: startJ_def)

lemma nextJ_bounds:
  "j \<le> nextJ j (findBest B s j) + 1 \<and> (j \<le> length B \<longrightarrow> nextJ j (findBest B s j) \<le> length B)"
proof (cases "accepted (findBest B s j)")
  case True
  from findBest_accepted [OF True] obtain k where
    k: "startJ j \<le> k" "k < endJ B j" "findBest B s j = bestAt B s k" by blast
  from k(2) endJ_le [of B j] have kl: "k < length B" by simp
  have n: "nat (int k + 1) = Suc k" by simp
  from True k(3) have "nextJ j (findBest B s j) = Suc k"
    by (simp add: nextJ_def bestAt_def n del: of_nat_Suc)
  with k(1) kl show ?thesis
    by (simp add: startJ_eq)
next
  case False
  then show ?thesis by (simp add: nextJ_def)
qed

lemma length_pairedLoop: "length (pairedLoop A B i j) = length A"
  by (induction A arbitrary: i j) (auto simp: Let_def)

lemma pairedLoop_subtitle1: "map it_subtitle1 (pairedLoop A B i j) = A"
  by (induction A arbitrary: i j) (auto simp: Let_def)


lemma pairedLoop_best:
  "it \<in> set (pairedLoop A B i j) \<Longrightarrow> it_best it = findBest B (startTicks (it_subtitle1 it)) (it_j it)"
  by (induction A arbitrary: i j) (auto simp: Let_def startTicks_def)


lemma pairedLoop_first_j: "A \<noteq> [] \<Longrightarrow> it_j (pairedLoop A B i j ! 0) = j"
  by (cases A) (auto simp: Let_def)

lemma pairedLoop_next_j:
  "Suc n < length A \<Longrightarrow>
   it_j (pairedLoop A B i j ! Suc n) = nextJ (it_j (pairedLoop A B i j ! n)) (it_best (pairedLoop A B i j ! n))"
proof (induction A arbitrary: i j n)
  case Nil
  then show ?case by simp
next
  case (Cons a A)
  show ?case
  proof (cases n)
    case 0
    with Cons.prems have "A \<noteq> []" by auto
    with 0 show ?thesis by (simp add: Let_def pairedLoop_first_j)
  next
    case (Suc m)
    with Cons.prems have "Suc m < length A" by simp
    from Cons.IH [OF this] Suc show ?thesis by (simp add: Let_def)
  qed
qed

lemma pairedLoop_j_le:
  "j \<le> length B \<Longrightarrow> it \<in> set (pairedLoop A B i j) \<Longrightarrow> it_j it \<le> length B"
proof (induction A arbitrary: i j)
  case Nil
  then show ?case by simp
next
  case (Cons a A)
  from Cons.prems(1) nextJ_bounds [of j B "parseInt (replace_t (sub_begin a))"]
  have "nextJ j (findBest B (parseInt (replace_t (sub_begin a))) j) \<le> length B" by simp
  with Cons.IH Cons.prems show ?case by (auto simp: Let_def)
qed

lemma pairedLoop_matched:
  assumes it: "it \<in> set (pairedLoop A B i j)" and m: "matchedIndex it = Some k"
  shows "startJ (it_j it) \<le> k \<and> k < endJ B (it_j it) \<and>
         nextJ (it_j it) (it_best it) = k + 1 \<and>
         it_best it = bestAt B (startTicks (it_subtitle1 it)) k \<and>
         num_lt (timeDiff (startTicks (it_subtitle1 it)) (B ! k)) (Num 10000000)"
proof -
  from it have b: "it_best it = findBest B (startTicks (it_subtitle1 it)) (it_j it)"
    by (rule pairedLoop_best)
  from m have acc: "accepted (it_best it)" and k: "k = nat (bestMatchIndex (it_best it))"
    by (auto simp: matchedIndex_def split: if_splits)
  from findBest_accepted [of B "startTicks (it_subtitle1 it)" "it_j it"] acc b
  obtain k' where k': "startJ (it_j it) \<le> k'" "k' < endJ B (it_j it)"
      "it_best it = bestAt B (startTicks (it_subtitle1 it)) k'"
      "num_lt (timeDiff (startTicks (it_subtitle1 it)) (B ! k')) (Num 10000000)"
    by auto
  from k k'(3) have "k = k'" by (simp add: bestAt_def)
  moreover from acc k'(3) have "nextJ (it_j it) (it_best it) = k' + 1"
    by (simp add: nextJ_def bestAt_def nat_add_distrib)
  ultimately show ?thesis
    using k' by simp
qed

lemma pairedLoop_step_back:
  assumes n: "Suc n < length A"
  shows "it_j (pairedLoop A B i j ! n) \<le> it_j (pairedLoop A B i j ! Suc n) + 1"
proof -
  let ?tr = "pairedLoop A B i j"
  have "?tr ! n \<in> set ?tr"
    using n by (simp add: length_pairedLoop)
  then have b: "it_best (?tr ! n) = findBest B (startTicks (it_subtitle1 (?tr ! n))) (it_j (?tr ! n))"
    by (rule pairedLoop_best)
  from pairedLoop_next_j [OF n] b nextJ_bounds [of "it_j (?tr ! n)" B]
  show ?thesis
    by simp
qed

lemma pairedLoop_not_accepted_Nil:
  "it \<in> set (pairedLoop A [] i j) \<Longrightarrow> \<not> accepted (it_best it)"
proof -
  assume "it \<in> set (pairedLoop A [] i j)"
  then have "it_best it = findBest [] (startTicks (it_subtitle1 it)) (it_j it)"
    by (rule pairedLoop_best)
  then show ?thesis
    by (simp add: findBest_def endJ_def accepted_def)
qed


lemma pairedEntries_text: "map e_text (pairedEntries A B r) = map sub_text A"
proof -
  have "map e_text (pairedEntries A B r) = map sub_text (map it_subtitle1 (pairedLoop A B 1 0))"
    by (simp add: pairedEntries_def pairedEntry_def o_def)
  then show ?thesis by (simp only: pairedLoop_subtitle1)
qed






section \<open>Paired mode: one entry for each cue of the first file\<close>



section \<open>Paired mode: empty sequences\<close>

text \<open>
  C7. With an empty second sequence every entry of the paired strategy carries the text of
  its cue of the first sequence and no second text (the search loop has no index to read,
  so nothing is read out of range). With an empty first sequence there is no entry.
\<close>

theorem paired_empty_sequences:
  "map e_second (pairedEntries A [] r) = replicate (length A) None \<and>
   map e_text (pairedEntries A [] r) = map sub_text A \<and>
   pairedEntries [] B r = []"
proof (intro conjI)
  have "map e_second (pairedEntries A [] r) = map (\<lambda>it. None) (pairedLoop A [] 1 0)"
    by (simp add: pairedEntries_def pairedEntry_def pairedLoop_not_accepted_Nil)
  then show "map e_second (pairedEntries A [] r) = replicate (length A) None"
    by (simp add: map_replicate_const length_pairedLoop)
  show "map e_text (pairedEntries A [] r) = map sub_text A"
    by (rule pairedEntries_text)
  show "pairedEntries [] B r = []"
    by (simp add: pairedEntries_def)
qed

section \<open>Paired mode: the cursor\<close>

text \<open>
  C3, as the code has it. From one pass of the outer loop to the next the cursor \<open>j\<close> goes
  back by at most one position, which is within the two positions of the backtrack; it
  never leaves the second sequence. A pass that matches index \<open>k\<close> found it in the window
  from \<open>max(0, j - 2)\<close> to \<open>min(length, max(0, j - 2) + 10)\<close> and sets the cursor to \<open>k + 1\<close>.
  Since the window starts behind the cursor, the index matched last is in the window of
  the next pass again.
\<close>

theorem paired_cursor_steps_back_at_most_one:
  "(\<forall>n. Suc n < length A \<longrightarrow>
       it_j (pairedLoop A B 1 0 ! n) \<le> it_j (pairedLoop A B 1 0 ! Suc n) + 1) \<and>
   (\<forall>it \<in> set (pairedLoop A B 1 0).
       it_j it \<le> length B \<and>
       (\<forall>k. matchedIndex it = Some k \<longrightarrow>
          startJ (it_j it) \<le> k \<and> k < endJ B (it_j it) \<and> nextJ (it_j it) (it_best it) = k + 1))"
proof (intro conjI allI impI ballI)
  fix n assume "Suc n < length A"
  then show "it_j (pairedLoop A B 1 0 ! n) \<le> it_j (pairedLoop A B 1 0 ! Suc n) + 1"
    by (rule pairedLoop_step_back)
next
  fix it assume "it \<in> set (pairedLoop A B 1 0)"
  then show "it_j it \<le> length B"
    using pairedLoop_j_le [of 0 B it A 1] by simp
next
  fix it k assume "it \<in> set (pairedLoop A B 1 0)" "matchedIndex it = Some k"
  then show "startJ (it_j it) \<le> k"
    using pairedLoop_matched by blast
next
  fix it k assume "it \<in> set (pairedLoop A B 1 0)" "matchedIndex it = Some k"
  then show "k < endJ B (it_j it)"
    using pairedLoop_matched by blast
next
  fix it k assume "it \<in> set (pairedLoop A B 1 0)" "matchedIndex it = Some k"
  then show "nextJ (it_j it) (it_best it) = k + 1"
    using pairedLoop_matched by blast
qed

theorem paired_cursor_witness:
  "Suc 0 < length rematch_A \<and>
   it_j (pairedLoop rematch_A rematch_B 1 0 ! 0) = 0 \<and>
   it_j (pairedLoop rematch_A rematch_B 1 0 ! Suc 0) = 1 \<and>
   it_j (pairedLoop rematch_A rematch_B 1 0 ! 0) \<le> it_j (pairedLoop rematch_A rematch_B 1 0 ! Suc 0) + 1"
proof -
  have e: "Suc 0 < length rematch_A \<and>
     it_j (pairedLoop rematch_A rematch_B 1 0 ! 0) = 0 \<and>
     it_j (pairedLoop rematch_A rematch_B 1 0 ! Suc 0) = 1"
    by code_simp
  then have "Suc 0 < length rematch_A" by simp
  with paired_cursor_steps_back_at_most_one [of rematch_A rematch_B]
  have "it_j (pairedLoop rematch_A rematch_B 1 0 ! 0) \<le> it_j (pairedLoop rematch_A rematch_B 1 0 ! Suc 0) + 1"
    by blast
  with e show ?thesis by simp
qed

text \<open>
  The claim that no index of the second sequence is matched twice fails: with cues of the
  first file at ticks 0 and 1 and one cue of the second file at tick 0, both passes match
  index 0.
\<close>

theorem paired_index_matched_twice:
  "map matchedIndex (pairedLoop rematch_A rematch_B 1 0) = [Some 0, Some 0]"
  by code_simp

section \<open>Time codes of finite quotients\<close>







section \<open>Time-code conversion has no failure\<close>




section \<open>What the extraction returns\<close>

text \<open>
  A match of one of the patterns is never empty, so the test on the lengths in \<open>execAll\<close>
  always succeeds, and the \<^verbatim>\<open>begin\<close> of an extracted cue is a run of digits followed by
  \<^verbatim>\<open>t\<close>: its start in ticks is a number.
\<close>

lemma lit_length: "lit p s = Some r \<Longrightarrow> length s = length p + length r"
  by (induction p s rule: lit.induct) (auto split: if_splits)

lemma digits1_Some:
  assumes "digits1 s = Some (ds, r)"
  shows "ds \<noteq> [] \<and> (\<forall>c\<in>set ds. isDigit c) \<and> s = ds @ r"
proof -
  from assms have ds: "ds = takeWhile isDigit s" "r = dropWhile isDigit s" "ds \<noteq> []"
    by (auto simp: digits1_def Let_def split: if_splits)
  moreover from ds(1) have "\<forall>c\<in>set ds. isDigit c"
    by (auto dest: set_takeWhileD)
  ultimately show ?thesis by simp
qed

lemma digits1_length: "digits1 s = Some (ds, r) \<Longrightarrow> length r < length s"
  using digits1_Some [of s ds r] by (cases ds) auto

lemma lazyUntil_length: "lazyUntil pat s = Some (b, r) \<Longrightarrow> length r \<le> length s"
proof (induction s arbitrary: b)
  case Nil
  then show ?case by (simp split: if_splits)
next
  case (Cons c cs)
  show ?case
  proof (cases "lit pat (c # cs)")
    case (Some rest)
    with Cons.prems lit_length [OF Some] show ?thesis by simp
  next
    case None
    with Cons.prems obtain b' where "lazyUntil pat cs = Some (b', r)"
      by (auto split: option.splits)
    from Cons.IH [OF this] show ?thesis by simp
  qed
qed

lemma match_kr_Some:
  assumes "match_kr s = Some ((b, e, body), rest)"
  shows "length rest < length s \<and>
         (\<exists>ds. ds \<noteq> [] \<and> (\<forall>c\<in>set ds. isDigit c) \<and> b = ds @ ''t'')"
proof -
  from assms obtain s1 n s2 s3 ds s4 s5 where
    1: "lit ''<p xml:id=\"subtitle'' s = Some s1" and
    2: "digits1 s1 = Some (n, s2)" and
    3: "lit ''\" begin=\"'' s2 = Some s3" and
    4: "digits1 s3 = Some (ds, s4)" and
    5: "lit ''t\" end=\"'' s4 = Some s5" and
    b: "b = ds @ ''t''"
    by (auto simp: match_kr_def split: bind_splits)
  from assms 1 2 3 4 5 obtain e' s6 s7 r s8 s9 y s10 s11 where
    6: "digits1 s5 = Some (e', s6)" and
    7: "lit ''t\" region=\"region'' s6 = Some s7" and
    8: "digits1 s7 = Some (r, s8)" and
    9: "lit ''\" style=\"style'' s8 = Some s9" and
    10: "digits1 s9 = Some (y, s10)" and
    11: "lit ''\">'' s10 = Some s11" and
    12: "lazyUntil ''</p>'' s11 = Some (body, rest)"
    by (auto simp: match_kr_def split: bind_splits)
  from lit_length [OF 1] digits1_length [OF 2] lit_length [OF 3] digits1_length [OF 4]
    lit_length [OF 5] digits1_length [OF 6] lit_length [OF 7] digits1_length [OF 8]
    lit_length [OF 9] digits1_length [OF 10] lit_length [OF 11] lazyUntil_length [OF 12]
  have "length rest < length s" by simp
  with digits1_Some [OF 4] b show ?thesis by blast
qed

lemma match_ch_Some:
  assumes "match_ch s = Some ((b, e, body), rest)"
  shows "length rest < length s \<and>
         (\<exists>ds. ds \<noteq> [] \<and> (\<forall>c\<in>set ds. isDigit c) \<and> b = ds @ ''t'')"
proof -
  from assms obtain s1 n s2 s3 ds s4 s5 where
    1: "lit ''<p xml:id=\"subtitle'' s = Some s1" and
    2: "digits1 s1 = Some (n, s2)" and
    3: "lit ''\" begin=\"'' s2 = Some s3" and
    4: "digits1 s3 = Some (ds, s4)" and
    5: "lit ''t\" end=\"'' s4 = Some s5" and
    b: "b = ds @ ''t''"
    by (auto simp: match_ch_def split: bind_splits)
  from assms 1 2 3 4 5 obtain e' s6 s7 r s8 s9 where
    6: "digits1 s5 = Some (e', s6)" and
    7: "lit ''t\" region=\"region'' s6 = Some s7" and
    8: "digits1 s7 = Some (r, s8)" and
    9: "lit ''\">'' s8 = Some s9" and
    12: "lazyUntil ''</p>'' s9 = Some (body, rest)"
    by (auto simp: match_ch_def split: bind_splits)
  from lit_length [OF 1] digits1_length [OF 2] lit_length [OF 3] digits1_length [OF 4]
    lit_length [OF 5] digits1_length [OF 6] lit_length [OF 7] digits1_length [OF 8]
    lit_length [OF 9] lazyUntil_length [OF 12]
  have "length rest < length s" by simp
  with digits1_Some [OF 4] b show ?thesis by blast
qed

lemma match_span_Some: "match_span s = Some (x, rest) \<Longrightarrow> length rest < length s"
proof -
  assume a: "match_span s = Some (x, rest)"
  then obtain s1 s2 where
    1: "lit ''<span'' s = Some s1" and
    2: "lit ''>'' (dropWhile (\<lambda>c. c \<noteq> CHR ''>'') s1) = Some s2" and
    3: "lazyUntil ''</span>'' s2 = Some (x, rest)"
    by (auto simp: match_span_def split: bind_splits)
  have "length (dropWhile (\<lambda>c. c \<noteq> CHR ''>'') s1) \<le> length s1"
    by (rule length_dropWhile_le)
  with lit_length [OF 1] lit_length [OF 2] lazyUntil_length [OF 3]
  show ?thesis by simp
qed

lemma replace_t_digits:
  "\<forall>c\<in>set ds. isDigit c \<Longrightarrow> replace_t (ds @ ''t'') = ds"
  by (induction ds) (auto simp: isDigit_def)

lemma parseInt_digits:
  assumes "ds \<noteq> []" and "\<forall>c\<in>set ds. isDigit c"
  shows "parseInt ds = Num (digitsToInt ds)"
proof -
  from assms(2) have "takeWhile isDigit ds = ds" by simp
  with assms(1) show ?thesis
    by (cases ds) (simp_all add: parseInt_def)
qed

lemma execAll_all:
  assumes "\<And>s x r. m s = Some (x, r) \<Longrightarrow> P x"
  shows "\<forall>x\<in>set (execAll m s). P x"
proof (induction s rule: length_induct)
  case (1 s)
  show ?case
  proof (cases "m s")
    case None
    show ?thesis
    proof (cases s)
      case Nil
      with None show ?thesis
        by (subst execAll.simps) simp
    next
      case (Cons c cs)
      then have "length cs < length s" by simp
      with 1 have "\<forall>x\<in>set (execAll m cs). P x"
        by blast
      with None Cons show ?thesis
        by (subst execAll.simps) simp
    qed
  next
    case (Some p)
    obtain x r where p: "p = (x, r)" by (cases p)
    with Some assms have px: "P x" by blast
    show ?thesis
    proof (cases "length r < length s")
      case True
      with 1 have "\<forall>x\<in>set (execAll m r). P x"
        by blast
      with Some p px True show ?thesis
        by (subst execAll.simps) simp
    next
      case False
      with Some p px show ?thesis
        by (subst execAll.simps) simp
    qed
  qed
qed

lemma extracted_starts_numeric:
  "\<forall>c\<in>set (extractSubtitlesWithRegex xmlContent lang). startTicks c \<noteq> NaN"
proof -
  have b: "parseInt (replace_t (ds @ ''t'')) \<noteq> NaN" if "ds \<noteq> []" "\<forall>c\<in>set ds. isDigit c" for ds
    using that by (simp add: replace_t_digits parseInt_digits)
  have kr: "\<forall>x\<in>set (execAll match_kr xmlContent). parseInt (replace_t (fst x)) \<noteq> NaN"
  proof (rule execAll_all)
    fix s x r assume "match_kr s = Some (x, r)"
    then show "parseInt (replace_t (fst x)) \<noteq> NaN"
      using match_kr_Some [of s "fst x" "fst (snd x)" "snd (snd x)" r] b by auto
  qed
  have ch: "\<forall>x\<in>set (execAll match_ch xmlContent). parseInt (replace_t (fst x)) \<noteq> NaN"
  proof (rule execAll_all)
    fix s x r assume "match_ch s = Some (x, r)"
    then show "parseInt (replace_t (fst x)) \<noteq> NaN"
      using match_ch_Some [of s "fst x" "fst (snd x)" "snd (snd x)" r] b by auto
  qed
  from kr ch show ?thesis
    by (auto simp: extractSubtitlesWithRegex_def startTicks_def)
qed

section \<open>The order of the timeline\<close>

text \<open>
  On cues whose starts are numbers the comparator sort is the stable sort by the tick
  count. The merged array is therefore ascending in raw ticks, cues of equal tick count
  keep the order of the merged array (first file, then second file), and when both files
  have the same positive tick rate the array is ascending in seconds as well.
\<close>

lemma Num_ticks: "x \<noteq> NaN \<Longrightarrow> x = Num (ticks x)"
  by (cases x) (simp_all add: ticks_def)

lemma insort_js_numeric:
  assumes "key x \<noteq> NaN" and "\<forall>y\<in>set ys. key y \<noteq> NaN"
  shows "insort_js (\<lambda>a b. num_sub (key a) (key b)) x ys = insort_key (\<lambda>a. ticks (key a)) x ys"
  using assms
proof (induction ys)
  case Nil
  then show ?case by simp
next
  case (Cons y ys)
  from Cons.prems obtain a b where ab: "key x = Num a" "key y = Num b"
    by (metis Num_ticks list.set_intros(1))
  then have "num_lt (Num 0) (num_sub (key x) (key y)) \<longleftrightarrow> \<not> a \<le> b"
    by (auto simp: num_lt_def num_sub_def)
  with ab Cons show ?case
    by (simp add: ticks_def)
qed

lemma sort_js_numeric:
  assumes "\<forall>x\<in>set xs. key x \<noteq> NaN"
  shows "sort_js (\<lambda>a b. num_sub (key a) (key b)) xs = sort_key (\<lambda>a. ticks (key a)) xs"
  using assms
proof (induction xs)
  case Nil
  then show ?case by (simp add: sort_js_def)
next
  case (Cons x xs)
  then have ih: "sort_js (\<lambda>a b. num_sub (key a) (key b)) xs = sort_key (\<lambda>a. ticks (key a)) xs"
    by simp
  have "sort_js (\<lambda>a b. num_sub (key a) (key b)) (x # xs) =
        insort_js (\<lambda>a b. num_sub (key a) (key b)) x (sort_key (\<lambda>a. ticks (key a)) xs)"
    using ih by (simp add: sort_js_def)
  also have "\<dots> = insort_key (\<lambda>a. ticks (key a)) x (sort_key (\<lambda>a. ticks (key a)) xs)"
    using Cons.prems by (intro insort_js_numeric) simp_all
  finally show ?case by simp
qed

lemma sort_js_sorted_id:
  assumes "\<forall>c\<in>set xs. startTicks c \<noteq> NaN"
    and "sorted (map (\<lambda>c. ticks (startTicks c)) xs)"
  shows "sort_js compareBegin xs = xs"
proof -
  have c: "compareBegin = (\<lambda>a b. num_sub (startTicks a) (startTicks b))"
    by (intro ext) (simp add: compareBegin_def startTicks_def)
  have "sort_js compareBegin xs = sort_key (\<lambda>c. ticks (startTicks c)) xs"
    unfolding c using assms(1) by (rule sort_js_numeric)
  with assms(2) show ?thesis
    by (simp add: sort_key_id_if_sorted)
qed

lemma startTime_tagSubtitle: "startTime (tagSubtitle l r c) = startTicks c"
  by (simp add: tagSubtitle_def startTicks_def)

lemma mergedSubtitles_numeric:
  assumes "\<forall>c\<in>set A \<union> set B. startTicks c \<noteq> NaN"
  shows "mergedSubtitles A B l1 l2 r1 r2 =
     sort_key (\<lambda>m. ticks (startTime m))
       (map (tagSubtitle l1 r1) A @ map (tagSubtitle l2 r2) B)"
proof -
  have c: "compareStartTime = (\<lambda>a b. num_sub (startTime a) (startTime b))"
    by (intro ext) (simp add: compareStartTime_def)
  have "\<forall>m\<in>set (map (tagSubtitle l1 r1) A @ map (tagSubtitle l2 r2) B). startTime m \<noteq> NaN"
    using assms by (auto simp: startTime_tagSubtitle)
  then show ?thesis
    unfolding mergedSubtitles_def c by (rule sort_js_numeric)
qed

lemma timeline_sorted_by_ticks:
  assumes "\<forall>c\<in>set A \<union> set B. startTicks c \<noteq> NaN"
  shows "sorted (map (\<lambda>m. ticks (startTime m)) (mergedSubtitles A B l1 l2 r1 r2))"
  by (simp only: mergedSubtitles_numeric [OF assms] sorted_sort_key)

lemma timeline_stable:
  assumes "\<forall>c\<in>set A \<union> set B. startTicks c \<noteq> NaN"
  shows "filter (\<lambda>m. ticks (startTime m) = t) (mergedSubtitles A B l1 l2 r1 r2) =
         filter (\<lambda>m. ticks (startTime m) = t) (map (tagSubtitle l1 r1) A) @
         filter (\<lambda>m. ticks (startTime m) = t) (map (tagSubtitle l2 r2) B)"
  by (simp only: mergedSubtitles_numeric [OF assms] sort_key_stable filter_append)

lemma timeline_sorted_by_seconds_equal_rate:
  assumes "\<forall>c\<in>set A \<union> set B. startTicks c \<noteq> NaN" and r: "0 < r"
  shows "sorted (map (\<lambda>m. (of_int (ticks (startTime m)) / of_int r :: rat))
           (mergedSubtitles A B l1 l2 (Num r) (Num r)))"
proof -
  let ?M = "mergedSubtitles A B l1 l2 (Num r) (Num r)"
  from timeline_sorted_by_ticks [OF assms(1), of l1 l2 "Num r" "Num r"]
  have "sorted_wrt (\<lambda>x y. ticks (startTime x) \<le> ticks (startTime y)) ?M"
    by (simp add: sorted_map)
  then have "sorted_wrt (\<lambda>x y. (of_int (ticks (startTime x)) / of_int r :: rat)
                           \<le> of_int (ticks (startTime y)) / of_int r) ?M"
    by (rule sorted_wrt_mono_rel [rotated]) (use r in \<open>simp add: divide_right_mono\<close>)
  then show ?thesis
    by (simp add: sorted_map)
qed

lemma extracted_timeline_sorted_by_ticks:
  "sorted (map (\<lambda>m. ticks (startTime m))
     (mergedSubtitles (extractSubtitlesWithRegex xmlData1 language1)
        (extractSubtitlesWithRegex xmlData2 language2) language1 language2 r1 r2))"
  using extracted_starts_numeric by (intro timeline_sorted_by_ticks) blast

text \<open>
  C1. The specification asks for the order of the normalized starts, with the cue of the
  first file in front when the seconds are equal. The source sorts the raw tick counts,
  which are in different units when the two files declare different tick rates. For the
  two files of the fourth scenario both cues start at 1.0 s, and the output has the cue of
  the second file first; with the cue of the second file at 2.0 s instead, the output
  shows 2.0 s before 1.0 s.
\<close>

theorem timeline_orders_by_raw_ticks:
  "extractSubtitlesWithRegex xml4_A ''kr'' = [cue ''10000000t'' ''20000000t'' ''a1''] \<and>
   tickRateOf xml4_A = Num 10000000 \<and>
   extractSubtitlesWithRegex xml4_B ''ch'' = [cue ''2700000t'' ''5400000t'' ''b1''] \<and>
   tickRateOf xml4_B = Num 2700000 \<and>
   startSeconds (cue ''10000000t'' ''20000000t'' ''a1'') (Num 10000000) = Finite 1 \<and>
   startSeconds (cue ''2700000t'' ''5400000t'' ''b1'') (Num 2700000) = Finite 1 \<and>
   createCombinedSRTTimeline xml4_A xml4_B ''kr'' ''ch'' =
     ''1\<newline>00:00:01,000 --> 00:00:02,000\<newline>b1\<newline>\<newline>2\<newline>00:00:01,000 --> 00:00:02,000\<newline>a1\<newline>\<newline>'' \<and>
   startSeconds (cue ''5400000t'' ''8100000t'' ''b2'') (Num 2700000) = Finite 2 \<and>
   map e_text
     (timelineEntries [cue ''10000000t'' ''20000000t'' ''a1''] [cue ''5400000t'' ''8100000t'' ''b2'']
        ''kr'' ''ch'' (Num 10000000) (Num 2700000)) = [''b2'', ''a1''] \<and>
   map e_start
     (timelineEntries [cue ''10000000t'' ''20000000t'' ''a1''] [cue ''5400000t'' ''8100000t'' ''b2'']
        ''kr'' ''ch'' (Num 10000000) (Num 2700000)) = [''00:00:02,000'', ''00:00:01,000'']"
  by code_simp

section \<open>The gap bound of the paired mode\<close>

text \<open>
  When both files have the tick rate 10000000, the bound of 10000000 ticks on an accepted
  match is a bound of one second.
\<close>

lemma matched_within_one_second_at_default_rate:
  assumes "startTicks a = Num x" and "startTicks b = Num y"
    and "num_lt (timeDiff (startTicks a) b) (Num 10000000)"
  shows "\<bar>(of_int x / 10000000 :: rat) - of_int y / 10000000\<bar> < 1"
proof -
  from assms have "\<bar>x - y\<bar> < 10000000"
    by (simp add: timeDiff_def num_lt_def num_abs_def num_sub_def)
  then have "\<bar>(of_int x :: rat) - of_int y\<bar> < 10000000"
    by (metis of_int_abs of_int_diff of_int_less_iff of_int_numeral)
  moreover have "\<bar>(of_int x / 10000000 :: rat) - of_int y / 10000000\<bar> = \<bar>(of_int x :: rat) - of_int y\<bar> / 10000000"
    by (simp add: diff_divide_distrib [symmetric])
  ultimately show ?thesis by simp
qed

text \<open>
  C2. The bound is a constant number of ticks, whatever the tick rates of the files are.
  For two files at 1000000 ticks per second whose cues start at 0 s and at 5 s, the
  distance is 5000000 ticks, which is below the bound: the cues are paired although they
  are five seconds apart.
\<close>

theorem paired_accepts_five_second_gap:
  "extractSubtitlesWithRegex xmlGap_A ''kr'' = [cue ''0t'' ''1000000t'' ''a1''] \<and>
   tickRateOf xmlGap_A = Num 1000000 \<and>
   extractSubtitlesWithRegex xmlGap_B ''ch'' = [cue ''5000000t'' ''6000000t'' ''b1''] \<and>
   tickRateOf xmlGap_B = Num 1000000 \<and>
   startSeconds (cue ''0t'' ''1000000t'' ''a1'') (Num 1000000) = Finite 0 \<and>
   startSeconds (cue ''5000000t'' ''6000000t'' ''b1'') (Num 1000000) = Finite 5 \<and>
   map matchedIndex
     (pairedLoop [cue ''0t'' ''1000000t'' ''a1''] [cue ''5000000t'' ''6000000t'' ''b1''] 1 0) = [Some 0] \<and>
   createCombinedSRTPaired xmlGap_A xmlGap_B ''kr'' ''ch'' =
     ''1\<newline>00:00:00,000 --> 00:00:01,000\<newline>a1\<newline>b1\<newline>\<newline>''"
  by code_simp

text \<open>
  C6. The window of the search is the one the specification gives, and in it the first cue
  of least distance is taken (lemma \<open>findBest_searched\<close>), but the distance is the
  difference of the raw tick counts. For a first file at 10000000 ticks per second with a
  cue at 1 s and a second file at 1000000 ticks per second with cues at 1 s and at 9 s,
  the search takes the cue at 9 s: it is 1000000 ticks away, the cue at 1 s is 9000000
  ticks away.
\<close>

theorem search_prefers_raw_tick_distance:
  "extractSubtitlesWithRegex xml4_A ''kr'' = [cue ''10000000t'' ''20000000t'' ''a1''] \<and>
   tickRateOf xml4_A = Num 10000000 \<and>
   extractSubtitlesWithRegex xmlNear_B ''ch'' =
     [cue ''1000000t'' ''2000000t'' ''b1'', cue ''9000000t'' ''9500000t'' ''b2''] \<and>
   tickRateOf xmlNear_B = Num 1000000 \<and>
   startSeconds (cue ''10000000t'' ''20000000t'' ''a1'') (Num 10000000) = Finite 1 \<and>
   startSeconds (cue ''1000000t'' ''2000000t'' ''b1'') (Num 1000000) = Finite 1 \<and>
   startSeconds (cue ''9000000t'' ''9500000t'' ''b2'') (Num 1000000) = Finite 9 \<and>
   startJ 0 = 0 \<and>
   endJ [cue ''1000000t'' ''2000000t'' ''b1'', cue ''9000000t'' ''9500000t'' ''b2''] 0 = 2 \<and>
   findBest [cue ''1000000t'' ''2000000t'' ''b1'', cue ''9000000t'' ''9500000t'' ''b2'']
     (startTicks (cue ''10000000t'' ''20000000t'' ''a1'')) 0 =
     \<lparr>minTimeDiff = Num 1000000, bestMatch = Some (cue ''9000000t'' ''9500000t'' ''b2''),
      bestMatchIndex = 1\<rparr> \<and>
   createCombinedSRTPaired xml4_A xmlNear_B ''kr'' ''ch'' =
     ''1\<newline>00:00:01,000 --> 00:00:02,000\<newline>a1\<newline>b2\<newline>\<newline>''"
  by code_simp

end
